theory Spec2Isabelle
  imports Complex_Main
begin

section \<open>Data model\<close>

text \<open>
  A message of a track, as the program reads it: \<open>note_on\<close> and \<open>note_off\<close> messages
  carry a channel, a note, a velocity and a delta time; every other kind of message is
  kept as its kind, its payload and its delta time. The field \<open>note\<close> is written
  \<open>note_of\<close>, since \<open>note\<close> is a keyword of the proof language. Python integers
  are unbounded, so every number is an \<open>int\<close>.
\<close>

datatype message =
    is_note_on: NoteOn (channel: int) (note_of: int) (velocity: int) (time: int)
  | is_note_off: NoteOff (channel: int) (note_of: int) (velocity: int) (time: int)
  | Other (kind: string) (payload: "int list") (time: int)

type_synonym track = "message list"

record midifile =
  type :: int
  ticks_per_beat :: int
  tracks :: "track list"

text \<open>\<open>msg.copy(note=n)\<close>, and the assignment \<open>newMsg.note = n\<close> on a copy.\<close>

fun copy_note :: "message \<Rightarrow> int \<Rightarrow> message" where
  "copy_note (NoteOn c n v t) n' = NoteOn c n' v t"
| "copy_note (NoteOff c n v t) n' = NoteOff c n' v t"
| "copy_note (Other k p t) n' = Other k p t"

section \<open>Key analysis\<close>

definition majorProfile :: "rat list" where
  "majorProfile = [6.35, 2.23, 3.48, 2.33, 4.38, 4.09, 2.52, 5.19, 2.39, 3.66, 2.29, 2.88]"

definition minorProfile :: "rat list" where
  "minorProfile = [6.33, 2.68, 3.52, 5.38, 2.60, 3.53, 2.54, 4.75, 3.98, 2.69, 3.34, 3.17]"

text \<open>
  The variables of \<open>analyseKey\<close> while it walks the tracks: the dictionary \<open>active\<close> and
  the clock \<open>currentTime\<close> are reset at the start of every track, \<open>cpitchc\<close> (a
  \<open>defaultdict(int)\<close>, so a function that is 0 where nothing was added) and
  \<open>totalDuration\<close> live across tracks.
\<close>

record walk =
  active :: "int \<rightharpoonup> int"
  currentTime :: int
  cpitchc :: "int \<Rightarrow> int"
  totalDuration :: int

text \<open>The body of the loop over the messages of a track.\<close>

definition on_message :: "walk \<Rightarrow> message \<Rightarrow> walk" where
  "on_message w msg =
     (let w1 = w\<lparr>currentTime := currentTime w + time msg\<rparr> in
      if is_note_on msg \<and> velocity msg > 0 then
        w1\<lparr>active := (active w1)(note_of msg \<mapsto> currentTime w1)\<rparr>
      else if is_note_off msg \<or> (is_note_on msg \<and> velocity msg = 0) then
        (case active w1 (note_of msg) of
           None \<Rightarrow> w1
         | Some onset \<Rightarrow>
             (let duration = currentTime w1 - onset;
                  pitchClass = note_of msg mod 12
              in w1\<lparr>cpitchc := (cpitchc w1)(pitchClass := cpitchc w1 pitchClass + duration),
                     totalDuration := totalDuration w1 + duration,
                     active := (active w1)(note_of msg := None)\<rparr>))
      else w1)"

text \<open>The body of the loop over the tracks.\<close>

definition on_track :: "walk \<Rightarrow> track \<Rightarrow> walk" where
  "on_track w trk = foldl on_message (w\<lparr>active := Map.empty, currentTime := 0\<rparr>) trk"

definition start :: walk where
  "start = \<lparr>active = Map.empty, currentTime = 0, cpitchc = (\<lambda>_. 0), totalDuration = 0\<rparr>"

definition accumulate :: "midifile \<Rightarrow> walk" where
  "accumulate mid = foldl on_track start (tracks mid)"

text \<open>
  \<open>numpy.roll\<close> on a one-dimensional array: the elements move \<open>k\<close> places to the right
  and those pushed past the end come back at the front. \<open>numpy.dot\<close> on two vectors.
  The program computes both in floating point; here the arithmetic is exact, over the
  rationals.
\<close>

definition roll :: "'a list \<Rightarrow> int \<Rightarrow> 'a list" where
  "roll xs k =
     (let n = int (length xs); s = k mod n
      in drop (nat (n - s)) xs @ take (nat (n - s)) xs)"

definition dot :: "rat list \<Rightarrow> rat list \<Rightarrow> rat" where
  "dot xs ys = sum_list (map2 (*) xs ys)"

definition pitchClassHistogram :: "walk \<Rightarrow> rat list" where
  "pitchClassHistogram w =
     map (\<lambda>i. rat_of_int (cpitchc w i) / rat_of_int (totalDuration w)) [0..11]"

type_synonym best = "rat \<times> int \<times> string"

definition try_key :: "rat list \<Rightarrow> int \<Rightarrow> best \<Rightarrow> string \<times> rat list \<Rightarrow> best" where
  "try_key h i b mp =
     (case (b, mp) of ((bestScore, detectedKey), (mode, profile)) \<Rightarrow>
        (let keyProfile = roll profile i;
             correlation = dot h keyProfile
         in if correlation > bestScore then (correlation, (i, mode))
            else (bestScore, detectedKey)))"

definition modes :: "(string \<times> rat list) list" where
  "modes = [(''major'', majorProfile), (''minor'', minorProfile)]"

definition search :: "rat list \<Rightarrow> best" where
  "search h = foldl (\<lambda>b i. foldl (try_key h i) b modes) (-1, (0, ''minor'')) [0..11]"

definition analyseKey :: "midifile \<Rightarrow> int \<times> string" where
  "analyseKey mid =
     (let w = accumulate mid in
      if totalDuration w = 0 then (0, ''minor'')
      else snd (search (pitchClassHistogram w)))"

section \<open>Transposition\<close>

definition convertRelative :: "midifile \<Rightarrow> midifile" where
  "convertRelative mid =
     \<lparr>type = type mid, ticks_per_beat = ticks_per_beat mid,
      tracks =
        foldl (\<lambda>newTracks trk.
                 newTracks @
                 [foldl (\<lambda>newTrack msg.
                           newTrack @
                           [if is_note_on msg \<or> is_note_off msg
                            then copy_note msg (min 127 (note_of msg + 3))
                            else msg])
                        [] trk])
              [] (tracks mid)\<rparr>"

definition convertParallel :: "midifile \<Rightarrow> int \<Rightarrow> midifile" where
  "convertParallel mid tonicpc =
     (let m3 = (tonicpc + 3) mod 12;
          m6 = (tonicpc + 8) mod 12;
          m7 = (tonicpc + 10) mod 12;
          transposed = {m3, m6, m7}
      in \<lparr>type = type mid, ticks_per_beat = ticks_per_beat mid,
          tracks =
            foldl (\<lambda>newTracks trk.
                     newTracks @
                     [foldl (\<lambda>newTrack msg.
                               if is_note_on msg \<or> is_note_off msg then
                                 (let pitchClass = note_of msg mod 12 in
                                  if pitchClass \<in> transposed
                                  then newTrack @ [copy_note msg (min 127 (note_of msg + 1))]
                                  else newTrack @ [msg])
                               else newTrack @ [msg])
                            [] trk])
                  [] (tracks mid)\<rparr>)"

section \<open>Notions used to state the properties\<close>

text \<open>
  The profile that belongs to a mode name, and the score of a key as the specification
  words it: the histogram against the profile moved so that the profile value at position
  \<open>i\<close> stands at position \<open>(i + t) mod 12\<close>.
\<close>

definition profile_of :: "string \<Rightarrow> rat list" where
  "profile_of mode = (if mode = ''major'' then majorProfile else minorProfile)"



text \<open>Every note of a document moved up by one octave.\<close>

definition octave_up :: "message \<Rightarrow> message" where
  "octave_up msg =
     (if is_note_on msg \<or> is_note_off msg then copy_note msg (note_of msg + 12) else msg)"

definition transpose_octave :: "midifile \<Rightarrow> midifile" where
  "transpose_octave mid = mid\<lparr>tracks := map (map octave_up) (tracks mid)\<rparr>"

text \<open>A message with its pitch blanked: what is left is everything a transform must keep.\<close>

definition forget_note :: "message \<Rightarrow> message" where
  "forget_note msg = copy_note msg 0"

text \<open>What the two transforms do to one message.\<close>

definition relative_msg :: "message \<Rightarrow> message" where
  "relative_msg msg =
     (if is_note_on msg \<or> is_note_off msg then copy_note msg (min 127 (note_of msg + 3)) else msg)"

definition parallel_msg :: "int \<Rightarrow> message \<Rightarrow> message" where
  "parallel_msg tonicpc msg =
     (if (is_note_on msg \<or> is_note_off msg) \<and>
         note_of msg mod 12 \<in> {(tonicpc + 3) mod 12, (tonicpc + 8) mod 12, (tonicpc + 10) mod 12}
      then copy_note msg (min 127 (note_of msg + 1)) else msg)"

text \<open>
  Relations between two walks: \<open>agree_off n\<close> lets them differ in the onset recorded
  for the note \<open>n\<close> only, \<open>shifted\<close> has the onsets of the second an octave above
  those of the first. \<open>balanced\<close> says that the durations per pitch class add up to the
  total duration.
\<close>

definition agree_off :: "int \<Rightarrow> walk \<Rightarrow> walk \<Rightarrow> bool" where
  "agree_off n w1 w2 \<longleftrightarrow>
     currentTime w1 = currentTime w2 \<and> cpitchc w1 = cpitchc w2 \<and>
     totalDuration w1 = totalDuration w2 \<and> (\<forall>k. k \<noteq> n \<longrightarrow> active w1 k = active w2 k)"

definition shifted :: "walk \<Rightarrow> walk \<Rightarrow> bool" where
  "shifted w1 w2 \<longleftrightarrow>
     currentTime w1 = currentTime w2 \<and> cpitchc w1 = cpitchc w2 \<and>
     totalDuration w1 = totalDuration w2 \<and> (\<forall>k. active w2 k = active w1 (k - 12))"


text \<open>
  The search of \<open>analyseKey\<close> seen as one loop over the list of the 24 candidates, each
  with its score and its key; \<open>position\<close> is the place of a key in that list.
\<close>

definition pick :: "('c \<Rightarrow> rat) \<Rightarrow> ('c \<Rightarrow> 'k) \<Rightarrow> rat \<times> 'k \<Rightarrow> 'c \<Rightarrow> rat \<times> 'k" where
  "pick sc lab b c = (if sc c > fst b then (sc c, lab c) else b)"

definition cand_score :: "rat list \<Rightarrow> int \<times> string \<times> rat list \<Rightarrow> rat" where
  "cand_score h c = (case c of (i, mode, profile) \<Rightarrow> dot h (roll profile i))"

definition cand_key :: "int \<times> string \<times> rat list \<Rightarrow> int \<times> string" where
  "cand_key c = (case c of (i, mode, profile) \<Rightarrow> (i, mode))"

definition candidates :: "(int \<times> string \<times> rat list) list" where
  "candidates = List.product [0..11] modes"

definition mode_at :: "nat \<Rightarrow> string" where
  "mode_at j = (if even j then ''major'' else ''minor'')"


text \<open>Documents on which the properties are evaluated.\<close>

definition two_notes :: midifile where
  "two_notes =
     \<lparr>type = 1, ticks_per_beat = 480,
      tracks = [[NoteOn 0 69 80 0, NoteOff 0 69 0 480, NoteOn 0 60 80 0, NoteOff 0 60 0 100]]\<rparr>"

definition silent :: midifile where
  "silent =
     \<lparr>type = 1, ticks_per_beat = 480,
      tracks = [[Other ''set_tempo'' [500000] 0, NoteOff 0 60 0 240], []]\<rparr>"

definition top_note :: midifile where
  "top_note = \<lparr>type = 0, ticks_per_beat = 96, tracks = [[NoteOn 0 127 64 0]]\<rparr>"

section \<open>The transforms\<close>

lemma foldl_append_map:
  "foldl (\<lambda>acc x. acc @ [f x]) acc xs = acc @ map f xs"
  by (induction xs arbitrary: acc) simp_all

lemma convertRelative_tracks:
  "tracks (convertRelative mid) = map (map relative_msg) (tracks mid)"
  unfolding convertRelative_def relative_msg_def
  by (simp add: foldl_append_map)

lemma branch_append:
  "(if c then (if d then nt @ [a] else nt @ [b]) else nt @ [b]) = nt @ [if c \<and> d then a else b]"
  by simp

lemma convertParallel_tracks:
  "tracks (convertParallel mid tonicpc) = map (map (parallel_msg tonicpc)) (tracks mid)"
  unfolding convertParallel_def parallel_msg_def Let_def
  by (simp only: branch_append foldl_append_map midifile.simps append_Nil)

text \<open>
  C4: in the document \<open>convertRelative\<close> returns, the message at every place of every
  track is the message of the input at that place, with the note of a \<open>note_on\<close> or
  \<open>note_off\<close> set to \<open>min 127 (note + 3)\<close> (so every note above 124 becomes 127, without
  wrap-around) and its channel, velocity and delta time kept; a message of any other
  kind is the same message.
\<close>

theorem convertRelative_pitch:
  assumes "i < length (tracks mid)" and "j < length (tracks mid ! i)"
  shows "length (tracks (convertRelative mid)) = length (tracks mid) \<and>
         length (tracks (convertRelative mid) ! i) = length (tracks mid ! i) \<and>
         (case tracks mid ! i ! j of
            NoteOn c n v t \<Rightarrow>
              tracks (convertRelative mid) ! i ! j = NoteOn c (min 127 (n + 3)) v t \<and>
              (124 < n \<and> n \<le> 127 \<longrightarrow> note_of (tracks (convertRelative mid) ! i ! j) = 127)
          | NoteOff c n v t \<Rightarrow>
              tracks (convertRelative mid) ! i ! j = NoteOff c (min 127 (n + 3)) v t \<and>
              (124 < n \<and> n \<le> 127 \<longrightarrow> note_of (tracks (convertRelative mid) ! i ! j) = 127)
          | Other k p t \<Rightarrow> tracks (convertRelative mid) ! i ! j = Other k p t)"
  using assms
  by (simp add: convertRelative_tracks relative_msg_def split: message.split)

theorem convertRelative_pitch_witness:
  "0 < length (tracks two_notes) \<and> 2 < length (tracks two_notes ! 0) \<and>
   tracks (convertRelative two_notes) ! 0 ! 2 = NoteOn 0 63 80 0"
  using convertRelative_pitch [of 0 two_notes 2]
  by (simp add: two_notes_def)

text \<open>
  C3, as the program has it: in the document \<open>convertParallel\<close> returns, a \<open>note_on\<close> or
  \<open>note_off\<close> whose note modulo 12 is one of \<open>(tonic + 3) mod 12\<close>, \<open>(tonic + 8) mod 12\<close>
  and \<open>(tonic + 10) mod 12\<close> has the note \<open>min 127 (note + 1)\<close>, every other message is
  the same message; so the pitch of a note message differs from the input exactly when
  its pitch class is one of the three and the pitch is not 127 already.
\<close>

theorem convertParallel_pitch:
  assumes "i < length (tracks mid)" and "j < length (tracks mid ! i)"
  shows "length (tracks (convertParallel mid tonicpc)) = length (tracks mid) \<and>
         length (tracks (convertParallel mid tonicpc) ! i) = length (tracks mid ! i) \<and>
         (case tracks mid ! i ! j of
            NoteOn c n v t \<Rightarrow>
              tracks (convertParallel mid tonicpc) ! i ! j =
                NoteOn c (if n mod 12 \<in> {(tonicpc + 3) mod 12, (tonicpc + 8) mod 12,
                                          (tonicpc + 10) mod 12}
                          then min 127 (n + 1) else n) v t \<and>
              (note_of (tracks (convertParallel mid tonicpc) ! i ! j) \<noteq> n \<longleftrightarrow>
                 n mod 12 \<in> {(tonicpc + 3) mod 12, (tonicpc + 8) mod 12, (tonicpc + 10) mod 12} \<and>
                 n \<noteq> 127)
          | NoteOff c n v t \<Rightarrow>
              tracks (convertParallel mid tonicpc) ! i ! j =
                NoteOff c (if n mod 12 \<in> {(tonicpc + 3) mod 12, (tonicpc + 8) mod 12,
                                           (tonicpc + 10) mod 12}
                           then min 127 (n + 1) else n) v t \<and>
              (note_of (tracks (convertParallel mid tonicpc) ! i ! j) \<noteq> n \<longleftrightarrow>
                 n mod 12 \<in> {(tonicpc + 3) mod 12, (tonicpc + 8) mod 12, (tonicpc + 10) mod 12} \<and>
                 n \<noteq> 127)
          | Other k p t \<Rightarrow> tracks (convertParallel mid tonicpc) ! i ! j = Other k p t)"
  using assms
  by (auto simp add: convertParallel_tracks parallel_msg_def split: message.split)

theorem convertParallel_pitch_witness:
  "0 < length (tracks two_notes) \<and> 2 < length (tracks two_notes ! 0) \<and>
   tracks (convertParallel two_notes 9) ! 0 ! 2 = NoteOn 0 61 80 0 \<and>
   tracks (convertParallel two_notes 9) ! 0 ! 0 = NoteOn 0 69 80 0"
  using convertParallel_pitch [of 0 two_notes 2 9] convertParallel_pitch [of 0 two_notes 0 9]
  by (simp add: two_notes_def)

text \<open>
  With tonic 4 the pitch class 7 of the note 127 is one of the three classes
  (\<open>(4 + 3) mod 12 = 7\<close>), and the note stays 127: its pitch does not change.
\<close>

theorem convertParallel_top_note_unchanged:
  "\<not> (note_of (tracks (convertParallel top_note 4) ! 0 ! 0) \<noteq> note_of (tracks top_note ! 0 ! 0) \<longleftrightarrow>
        note_of (tracks top_note ! 0 ! 0) mod 12 \<in> {(4 + 3) mod 12, (4 + 8) mod 12, (4 + 10) mod 12})"
  by (simp add: convertParallel_def top_note_def)

lemma forget_relative: "forget_note (relative_msg msg) = forget_note msg"
  by (cases msg) (simp_all add: forget_note_def relative_msg_def)

lemma forget_parallel: "forget_note (parallel_msg tonicpc msg) = forget_note msg"
  by (cases msg) (simp_all add: forget_note_def parallel_msg_def)

lemma time_relative: "time (relative_msg msg) = time msg"
  by (cases msg) (simp_all add: relative_msg_def)

lemma time_parallel: "time (parallel_msg tonicpc msg) = time msg"
  by (cases msg) (simp_all add: parallel_msg_def)

text \<open>
  C6: both transforms return a document with the type and the ticks per beat of the
  input, as many tracks, in every track as many messages, the same delta times at the
  same places, and, once the pitch of every note message is blanked, the same messages
  at the same places: nothing but the pitch of a note message differs.
\<close>

theorem transforms_preserve_structure:
  "type (convertRelative mid) = type mid \<and>
   ticks_per_beat (convertRelative mid) = ticks_per_beat mid \<and>
   length (tracks (convertRelative mid)) = length (tracks mid) \<and>
   map length (tracks (convertRelative mid)) = map length (tracks mid) \<and>
   map (map time) (tracks (convertRelative mid)) = map (map time) (tracks mid) \<and>
   map (map forget_note) (tracks (convertRelative mid)) = map (map forget_note) (tracks mid) \<and>
   type (convertParallel mid tonicpc) = type mid \<and>
   ticks_per_beat (convertParallel mid tonicpc) = ticks_per_beat mid \<and>
   length (tracks (convertParallel mid tonicpc)) = length (tracks mid) \<and>
   map length (tracks (convertParallel mid tonicpc)) = map length (tracks mid) \<and>
   map (map time) (tracks (convertParallel mid tonicpc)) = map (map time) (tracks mid) \<and>
   map (map forget_note) (tracks (convertParallel mid tonicpc)) =
     map (map forget_note) (tracks mid)"
proof -
  have "type (convertRelative mid) = type mid"
    and "ticks_per_beat (convertRelative mid) = ticks_per_beat mid"
    by (simp_all add: convertRelative_def)
  moreover have "type (convertParallel mid tonicpc) = type mid"
    and "ticks_per_beat (convertParallel mid tonicpc) = ticks_per_beat mid"
    by (simp_all add: convertParallel_def Let_def)
  moreover have "map (map time) (map (map relative_msg) (tracks mid)) = map (map time) (tracks mid)"
    and "map (map forget_note) (map (map relative_msg) (tracks mid)) =
         map (map forget_note) (tracks mid)"
    and "map (map time) (map (map (parallel_msg tonicpc)) (tracks mid)) =
         map (map time) (tracks mid)"
    and "map (map forget_note) (map (map (parallel_msg tonicpc)) (tracks mid)) =
         map (map forget_note) (tracks mid)"
    by (simp_all add: comp_def forget_relative forget_parallel time_relative time_parallel)
  ultimately show ?thesis
    by (simp add: convertRelative_tracks convertParallel_tracks comp_def)
qed

theorem transforms_preserve_structure_witness:
  "map (map time) (tracks (convertRelative two_notes)) = [[0, 480, 0, 100]] \<and>
   map (map time) (tracks (convertParallel two_notes 9)) = [[0, 480, 0, 100]] \<and>
   ticks_per_beat (convertRelative two_notes) = 480 \<and>
   type (convertParallel two_notes 9) = 1"
  using transforms_preserve_structure [of two_notes 9]
  by (simp add: two_notes_def)

section \<open>The walk over the tracks\<close>

lemma on_track_Nil: "on_track w [] = w\<lparr>active := Map.empty, currentTime := 0\<rparr>"
  by (simp add: on_track_def)

lemma on_track_snoc: "on_track w (trk @ [msg]) = on_message (on_track w trk) msg"
  by (simp add: on_track_def)

lemma on_track_split:
  "on_track w (pre @ msg # post) = foldl on_message (on_message (on_track w pre) msg) post"
  by (simp add: on_track_def)

lemma currentTime_on_message: "currentTime (on_message w msg) = currentTime w + time msg"
  by (simp add: on_message_def Let_def split: option.split)

lemma currentTime_foldl:
  "currentTime (foldl on_message w trk) = currentTime w + sum_list (map time trk)"
  by (induction trk arbitrary: w) (simp_all add: currentTime_on_message)

lemma currentTime_on_track: "currentTime (on_track w trk) = sum_list (map time trk)"
  by (simp add: on_track_def currentTime_foldl)

lemma accumulate_snoc:
  "accumulate (mid\<lparr>tracks := tracks mid @ [trk]\<rparr>) = on_track (accumulate mid) trk"
  by (simp add: accumulate_def)

text \<open>
  C2: the walk of \<open>analyseKey\<close>. The accumulators start empty and are handed from one
  track to the next; every track starts with no recorded onset and the clock at 0, and
  the clock after a track is the sum of the delta times of that track alone. After one
  more message the clock has advanced by its delta time; a \<open>note_on\<close> with a positive
  velocity records the clock for its note, over any onset recorded before; a \<open>note_off\<close>,
  or a \<open>note_on\<close> with velocity 0, for a note with a recorded onset adds the clock minus
  the onset to the entry of \<open>note mod 12\<close> and to the total duration and removes the
  onset.
\<close>

theorem analyseKey_walk:
  "accumulate (mid\<lparr>tracks := []\<rparr>) = start \<and>
   accumulate (mid\<lparr>tracks := tracks mid @ [trk]\<rparr>) = on_track (accumulate mid) trk \<and>
   on_track w [] = w\<lparr>active := Map.empty, currentTime := 0\<rparr> \<and>
   currentTime (on_track w trk) = sum_list (map time trk) \<and>
   on_track w (trk @ [msg]) =
     (let w' = on_track w trk; now = currentTime w' + time msg in
      if is_note_on msg \<and> 0 < velocity msg then
        w'\<lparr>currentTime := now, active := (active w')(note_of msg \<mapsto> now)\<rparr>
      else if is_note_off msg \<or> (is_note_on msg \<and> velocity msg = 0) then
        (case active w' (note_of msg) of
           None \<Rightarrow> w'\<lparr>currentTime := now\<rparr>
         | Some onset \<Rightarrow>
             w'\<lparr>currentTime := now,
                active := (active w')(note_of msg := None),
                cpitchc := (cpitchc w')(note_of msg mod 12 :=
                             cpitchc w' (note_of msg mod 12) + (now - onset)),
                totalDuration := totalDuration w' + (now - onset)\<rparr>)
      else w'\<lparr>currentTime := now\<rparr>)"
proof -
  have "accumulate (mid\<lparr>tracks := []\<rparr>) = start"
    by (simp add: accumulate_def)
  moreover have "on_track w (trk @ [msg]) =
     (let w' = on_track w trk; now = currentTime w' + time msg in
      if is_note_on msg \<and> 0 < velocity msg then
        w'\<lparr>currentTime := now, active := (active w')(note_of msg \<mapsto> now)\<rparr>
      else if is_note_off msg \<or> (is_note_on msg \<and> velocity msg = 0) then
        (case active w' (note_of msg) of
           None \<Rightarrow> w'\<lparr>currentTime := now\<rparr>
         | Some onset \<Rightarrow>
             w'\<lparr>currentTime := now,
                active := (active w')(note_of msg := None),
                cpitchc := (cpitchc w')(note_of msg mod 12 :=
                             cpitchc w' (note_of msg mod 12) + (now - onset)),
                totalDuration := totalDuration w' + (now - onset)\<rparr>)
      else w'\<lparr>currentTime := now\<rparr>)"
    unfolding on_track_snoc
    by (simp add: on_message_def Let_def split: option.split)
  ultimately show ?thesis
    by (simp only: accumulate_snoc on_track_Nil currentTime_on_track simp_thms)
qed

theorem analyseKey_walk_witness:
  "currentTime (on_track start [NoteOn 0 60 80 5, NoteOff 0 60 0 7]) = 12 \<and>
   totalDuration (on_track start ([NoteOn 0 60 80 5] @ [NoteOff 0 60 0 7])) = 7 \<and>
   cpitchc (on_track start ([NoteOn 0 60 80 5] @ [NoteOff 0 60 0 7])) 0 = 7 \<and>
   active (on_track start ([NoteOn 0 60 80 5] @ [NoteOff 0 60 0 7])) 60 = None"
  using analyseKey_walk [of two_notes "[NoteOn 0 60 80 5]" start "NoteOff 0 60 0 7"]
    analyseKey_walk [of two_notes "[NoteOn 0 60 80 5, NoteOff 0 60 0 7]" start "NoteOff 0 60 0 7"]
    analyseKey_walk [of two_notes "[]" start "NoteOn 0 60 80 5"]
  by (simp add: Let_def start_def)

lemma on_track_same_acc:
  assumes "cpitchc w1 = cpitchc w2" and "totalDuration w1 = totalDuration w2"
  shows "on_track w1 trk = on_track w2 trk"
proof -
  have "w1\<lparr>active := Map.empty, currentTime := 0\<rparr> = w2\<lparr>active := Map.empty, currentTime := 0\<rparr>"
    using assms by (cases w1, cases w2) simp
  then show ?thesis by (simp add: on_track_def)
qed

lemma foldl_on_track_same_acc:
  assumes "cpitchc w1 = cpitchc w2" and "totalDuration w1 = totalDuration w2"
  shows "cpitchc (foldl on_track w1 ts) = cpitchc (foldl on_track w2 ts) \<and>
         totalDuration (foldl on_track w1 ts) = totalDuration (foldl on_track w2 ts)"
proof (cases ts)
  case Nil
  with assms show ?thesis by simp
next
  case (Cons t ts')
  with on_track_same_acc [OF assms, of t] show ?thesis by simp
qed

lemma analyseKey_same_acc:
  assumes "cpitchc (accumulate m1) = cpitchc (accumulate m2)"
    and "totalDuration (accumulate m1) = totalDuration (accumulate m2)"
  shows "analyseKey m1 = analyseKey m2"
  using assms by (simp add: analyseKey_def pitchClassHistogram_def Let_def)

lemma accumulate_split:
  "accumulate (mid\<lparr>tracks := ts1 @ trk # ts2\<rparr>) =
     foldl on_track (on_track (foldl on_track start ts1) trk) ts2"
  by (simp add: accumulate_def)

lemma analyseKey_same_track:
  assumes "cpitchc (on_track (foldl on_track start ts1) trk1) =
           cpitchc (on_track (foldl on_track start ts1) trk2)"
    and "totalDuration (on_track (foldl on_track start ts1) trk1) =
         totalDuration (on_track (foldl on_track start ts1) trk2)"
  shows "analyseKey (mid\<lparr>tracks := ts1 @ trk1 # ts2\<rparr>) =
         analyseKey (mid\<lparr>tracks := ts1 @ trk2 # ts2\<rparr>)"
  by (rule analyseKey_same_acc)
     (simp_all only: accumulate_split foldl_on_track_same_acc [OF assms])

lemma on_message_unmatched:
  assumes "is_note_off msg \<or> (is_note_on msg \<and> velocity msg = 0)"
    and "active w (note_of msg) = None"
  shows "on_message w msg = w\<lparr>currentTime := currentTime w + time msg\<rparr>"
  using assms by (auto simp add: on_message_def Let_def)

lemma on_message_Other:
  "on_message w (Other k p t) = w\<lparr>currentTime := currentTime w + t\<rparr>"
  by (simp add: on_message_def Let_def)

text \<open>
  C7: a \<open>note_off\<close>, or a \<open>note_on\<close> with velocity 0, whose note has no recorded onset
  in its track only advances the clock: the recorded onsets and both accumulators stay
  as they are, and the walk and the key of the document are those of the document with
  a message without a note, of the same delta time, in its place. The model has no
  failing branch: the program reads \<open>active[msg.note]\<close> only after testing that the note
  is recorded.
\<close>

theorem unmatched_note_off_ignored:
  assumes "is_note_off msg \<or> (is_note_on msg \<and> velocity msg = 0)"
    and "active (on_track (foldl on_track start ts1) pre) (note_of msg) = None"
  shows "(let w = on_track (foldl on_track start ts1) pre
          in on_message w msg = w\<lparr>currentTime := currentTime w + time msg\<rparr>) \<and>
         accumulate (mid\<lparr>tracks := ts1 @ (pre @ msg # post) # ts2\<rparr>) =
           accumulate (mid\<lparr>tracks := ts1 @ (pre @ Other k p (time msg) # post) # ts2\<rparr>) \<and>
         analyseKey (mid\<lparr>tracks := ts1 @ (pre @ msg # post) # ts2\<rparr>) =
           analyseKey (mid\<lparr>tracks := ts1 @ (pre @ Other k p (time msg) # post) # ts2\<rparr>)"
proof -
  let ?w = "on_track (foldl on_track start ts1) pre"
  have step: "on_message ?w msg = ?w\<lparr>currentTime := currentTime ?w + time msg\<rparr>"
    by (rule on_message_unmatched [OF assms])
  then have same: "on_track (foldl on_track start ts1) (pre @ msg # post) =
      on_track (foldl on_track start ts1) (pre @ Other k p (time msg) # post)"
    by (simp only: on_track_split on_message_Other)
  then have acc: "accumulate (mid\<lparr>tracks := ts1 @ (pre @ msg # post) # ts2\<rparr>) =
      accumulate (mid\<lparr>tracks := ts1 @ (pre @ Other k p (time msg) # post) # ts2\<rparr>)"
    by (simp only: accumulate_split)
  then have "analyseKey (mid\<lparr>tracks := ts1 @ (pre @ msg # post) # ts2\<rparr>) =
      analyseKey (mid\<lparr>tracks := ts1 @ (pre @ Other k p (time msg) # post) # ts2\<rparr>)"
    by (simp only: analyseKey_def)
  with step acc show ?thesis
    by (simp only: Let_def simp_thms)
qed

theorem unmatched_note_off_ignored_witness:
  "(is_note_off (NoteOff 0 64 0 30) \<or>
     (is_note_on (NoteOff 0 64 0 30) \<and> velocity (NoteOff 0 64 0 30) = 0)) \<and>
   active (on_track (foldl on_track start [[NoteOn 0 64 90 0]]) [NoteOn 0 60 80 0])
     (note_of (NoteOff 0 64 0 30)) = None \<and>
   analyseKey (two_notes\<lparr>tracks :=
       [[NoteOn 0 64 90 0]] @ ([NoteOn 0 60 80 0] @ NoteOff 0 64 0 30 # [NoteOff 0 60 0 10]) # []\<rparr>) =
   analyseKey (two_notes\<lparr>tracks :=
       [[NoteOn 0 64 90 0]] @ ([NoteOn 0 60 80 0] @ Other ''text'' [] 30 # [NoteOff 0 60 0 10]) # []\<rparr>)"
proof -
  have off: "is_note_off (NoteOff 0 64 0 30) \<or>
     (is_note_on (NoteOff 0 64 0 30) \<and> velocity (NoteOff 0 64 0 30) = 0)"
    by simp
  have unmatched: "active (on_track (foldl on_track start [[NoteOn 0 64 90 0]]) [NoteOn 0 60 80 0])
     (note_of (NoteOff 0 64 0 30)) = None"
    by (simp add: on_track_def on_message_def start_def Let_def)
  from off unmatched
    unmatched_note_off_ignored [OF off unmatched, where mid = two_notes
      and post = "[NoteOff 0 60 0 10]" and ?ts2.0 = "[]" and k = "''text''" and p = "[]"]
  show ?thesis by (simp add: Let_def)
qed

lemma agree_off_on_message:
  assumes "agree_off n w1 w2"
    and "\<not> ((is_note_off m \<or> (is_note_on m \<and> velocity m = 0)) \<and> note_of m = n)"
  shows "agree_off n (on_message w1 m) (on_message w2 m)"
proof -
  consider (on) "is_note_on m \<and> 0 < velocity m"
    | (off) "\<not> (is_note_on m \<and> 0 < velocity m)"
        "is_note_off m \<or> (is_note_on m \<and> velocity m = 0)"
    | (other) "\<not> (is_note_on m \<and> 0 < velocity m)"
        "\<not> (is_note_off m \<or> (is_note_on m \<and> velocity m = 0))"
    by blast
  then show ?thesis
  proof cases
    case on
    with assms(1) show ?thesis
      by (simp add: agree_off_def on_message_def Let_def)
  next
    case off
    with assms(2) have "note_of m \<noteq> n" by blast
    with assms(1) have "active w1 (note_of m) = active w2 (note_of m)"
      by (simp add: agree_off_def)
    with assms(1) off show ?thesis
      by (cases "active w2 (note_of m)") (auto simp add: agree_off_def on_message_def Let_def)
  next
    case other
    with assms(1) show ?thesis
      by (auto simp add: agree_off_def on_message_def Let_def)
  qed
qed

lemma agree_off_foldl:
  assumes "agree_off n w1 w2"
    and "\<forall>m\<in>set post. \<not> ((is_note_off m \<or> (is_note_on m \<and> velocity m = 0)) \<and> note_of m = n)"
  shows "agree_off n (foldl on_message w1 post) (foldl on_message w2 post)"
  using assms
proof (induction post arbitrary: w1 w2)
  case Nil
  then show ?case by simp
next
  case (Cons m post)
  from Cons.prems have "agree_off n (on_message w1 m) (on_message w2 m)"
    by (intro agree_off_on_message) simp_all
  with Cons.IH Cons.prems(2) show ?case by simp
qed

lemma agree_off_note_on:
  assumes "0 < v"
  shows "agree_off n (on_message w (NoteOn c n v t)) (on_message w (Other k p t))"
  using assms by (simp add: agree_off_def on_message_def Let_def)

text \<open>
  C9: a \<open>note_on\<close> with a positive velocity after which its track has no \<open>note_off\<close>,
  and no \<open>note_on\<close> with velocity 0, for the same note adds nothing: both accumulators
  after the track, and the key of the whole document, are those of the document with a
  message without a note, of the same delta time, in its place. The onsets still
  recorded at the end of a track are dropped when the next track starts.
\<close>

theorem unmatched_note_on_discarded:
  assumes "0 < v"
    and "\<forall>m\<in>set post. \<not> ((is_note_off m \<or> (is_note_on m \<and> velocity m = 0)) \<and> note_of m = n)"
  shows "cpitchc (on_track w (pre @ NoteOn c n v t # post)) =
           cpitchc (on_track w (pre @ Other k p t # post)) \<and>
         totalDuration (on_track w (pre @ NoteOn c n v t # post)) =
           totalDuration (on_track w (pre @ Other k p t # post)) \<and>
         analyseKey (mid\<lparr>tracks := ts1 @ (pre @ NoteOn c n v t # post) # ts2\<rparr>) =
           analyseKey (mid\<lparr>tracks := ts1 @ (pre @ Other k p t # post) # ts2\<rparr>)"
proof -
  have agree: "agree_off n (on_track w' (pre @ NoteOn c n v t # post))
                            (on_track w' (pre @ Other k p t # post))" for w'
    unfolding on_track_split
    by (rule agree_off_foldl [OF agree_off_note_on [OF assms(1)] assms(2)])
  have "analyseKey (mid\<lparr>tracks := ts1 @ (pre @ NoteOn c n v t # post) # ts2\<rparr>) =
        analyseKey (mid\<lparr>tracks := ts1 @ (pre @ Other k p t # post) # ts2\<rparr>)"
    using agree [of "foldl on_track start ts1"]
    by (intro analyseKey_same_track) (simp_all add: agree_off_def)
  with agree [of w] show ?thesis
    by (simp add: agree_off_def)
qed

theorem unmatched_note_on_discarded_witness:
  "(0::int) < 80 \<and>
   totalDuration (on_track start ([NoteOn 0 62 70 0] @ NoteOn 0 60 80 5 #
       [NoteOff 0 62 0 10, Other ''text'' [] 3])) = 15 \<and>
   analyseKey (two_notes\<lparr>tracks :=
       [] @ ([NoteOn 0 62 70 0] @ NoteOn 0 60 80 5 # [NoteOff 0 62 0 10, Other ''text'' [] 3]) #
       [[NoteOff 0 60 0 50]]\<rparr>) = (2, ''major'')"
proof -
  have pos: "(0::int) < 80" by simp
  have none: "\<forall>m\<in>set [NoteOff 0 62 0 10, Other ''text'' [] 3].
      \<not> ((is_note_off m \<or> (is_note_on m \<and> velocity m = 0)) \<and> note_of m = 60)"
    by simp
  have total: "totalDuration (on_track start ([NoteOn 0 62 70 0] @ Other ''text'' [] 5 #
       [NoteOff 0 62 0 10, Other ''text'' [] 3])) = 15"
    by (simp add: on_track_def on_message_def start_def Let_def)
  have key: "analyseKey (two_notes\<lparr>tracks :=
       [] @ ([NoteOn 0 62 70 0] @ Other ''text'' [] 5 # [NoteOff 0 62 0 10, Other ''text'' [] 3]) #
       [[NoteOff 0 60 0 50]]\<rparr>) = (2, ''major'')"
    by code_simp
  from pos none total key
    unmatched_note_on_discarded [OF pos none, where w = start and pre = "[NoteOn 0 62 70 0]"
      and c = 0 and k = "''text''" and p = "[]" and t = 5 and mid = two_notes
      and ?ts1.0 = "[]" and ?ts2.0 = "[[NoteOff 0 60 0 50]]"]
  show ?thesis by (simp only: simp_thms)
qed

lemma shifted_update:
  assumes "\<forall>k. a2 k = a1 (k - 12)"
  shows "(a2(n + 12 := x)) k = (a1(n := x)) (k - (12::int))"
  using assms by auto

lemma shifted_on_message:
  assumes "shifted w1 w2"
  shows "shifted (on_message w1 m) (on_message w2 (octave_up m))"
proof (cases m)
  case (NoteOn c n v t)
  from assms have look: "active w2 (n + 12) = active w1 n"
    by (simp add: shifted_def)
  from assms have upd: "\<And>x k. ((active w2)(n + 12 := x)) k = ((active w1)(n := x)) (k - 12)"
    by (intro shifted_update) (simp add: shifted_def)
  from assms show ?thesis
    unfolding NoteOn octave_up_def
    by (cases "active w1 n") (simp_all add: shifted_def on_message_def Let_def look upd)
next
  case (NoteOff c n v t)
  from assms have look: "active w2 (n + 12) = active w1 n"
    by (simp add: shifted_def)
  from assms have upd: "\<And>x k. ((active w2)(n + 12 := x)) k = ((active w1)(n := x)) (k - 12)"
    by (intro shifted_update) (simp add: shifted_def)
  from assms show ?thesis
    unfolding NoteOff octave_up_def
    by (cases "active w1 n") (simp_all add: shifted_def on_message_def Let_def look upd)
next
  case (Other k p t)
  with assms show ?thesis
    by (simp add: shifted_def on_message_def Let_def octave_up_def)
qed

lemma shifted_foldl:
  assumes "shifted w1 w2"
  shows "shifted (foldl on_message w1 trk) (foldl on_message w2 (map octave_up trk))"
  using assms
  by (induction trk arbitrary: w1 w2) (simp_all add: shifted_on_message)

lemma shifted_on_track:
  assumes "cpitchc w1 = cpitchc w2" and "totalDuration w1 = totalDuration w2"
  shows "shifted (on_track w1 trk) (on_track w2 (map octave_up trk))"
  unfolding on_track_def
  by (rule shifted_foldl) (simp add: shifted_def assms)

lemma same_acc_transposed:
  assumes "cpitchc w1 = cpitchc w2" and "totalDuration w1 = totalDuration w2"
  shows "cpitchc (foldl on_track w1 ts) = cpitchc (foldl on_track w2 (map (map octave_up) ts)) \<and>
         totalDuration (foldl on_track w1 ts) =
           totalDuration (foldl on_track w2 (map (map octave_up) ts))"
  using assms
proof (induction ts arbitrary: w1 w2)
  case Nil
  then show ?case by simp
next
  case (Cons trk ts)
  from shifted_on_track [OF Cons.prems, of trk]
  have "cpitchc (on_track w1 trk) = cpitchc (on_track w2 (map octave_up trk))"
    and "totalDuration (on_track w1 trk) = totalDuration (on_track w2 (map octave_up trk))"
    by (simp_all add: shifted_def)
  from Cons.IH [OF this] show ?case by simp
qed

text \<open>
  C10: for a document whose notes are all at most 115, the document with every
  \<open>note_on\<close> and \<open>note_off\<close> an octave higher has the same key. (The proof does not use
  the bound: it keeps the transposed notes within 0..127.)
\<close>

theorem analyseKey_octave_invariant:
  assumes "\<forall>trk\<in>set (tracks mid). \<forall>msg\<in>set trk.
             is_note_on msg \<or> is_note_off msg \<longrightarrow> note_of msg \<le> 115"
  shows "analyseKey (transpose_octave mid) = analyseKey mid"
proof -
  have "cpitchc (accumulate mid) = cpitchc (accumulate (transpose_octave mid)) \<and>
        totalDuration (accumulate mid) = totalDuration (accumulate (transpose_octave mid))"
    unfolding accumulate_def transpose_octave_def
    using same_acc_transposed [of start start "tracks mid"] by simp
  then show ?thesis
    by (intro analyseKey_same_acc) simp_all
qed

theorem analyseKey_octave_invariant_witness:
  "tracks (transpose_octave two_notes) =
     [[NoteOn 0 81 80 0, NoteOff 0 81 0 480, NoteOn 0 72 80 0, NoteOff 0 72 0 100]] \<and>
   analyseKey (transpose_octave two_notes) = analyseKey two_notes"
proof -
  have low: "\<forall>trk\<in>set (tracks two_notes). \<forall>msg\<in>set trk.
      is_note_on msg \<or> is_note_off msg \<longrightarrow> note_of msg \<le> 115"
    by (simp add: two_notes_def)
  have "tracks (transpose_octave two_notes) =
     [[NoteOn 0 81 80 0, NoteOff 0 81 0 480, NoteOn 0 72 80 0, NoteOff 0 72 0 100]]"
    by (simp add: transpose_octave_def octave_up_def two_notes_def)
  with low analyseKey_octave_invariant [OF low] show ?thesis
    by (simp only: simp_thms)
qed

lemma on_message_silent:
  assumes "active w = Map.empty" and "\<not> (is_note_on m \<and> 0 < velocity m)"
  shows "on_message w m = w\<lparr>currentTime := currentTime w + time m\<rparr>"
  using assms by (auto simp add: on_message_def Let_def)

lemma foldl_on_message_silent:
  assumes "active w = Map.empty" and "\<forall>m\<in>set trk. \<not> (is_note_on m \<and> 0 < velocity m)"
  shows "totalDuration (foldl on_message w trk) = totalDuration w"
  using assms
proof (induction trk arbitrary: w)
  case Nil
  then show ?case by simp
next
  case (Cons m trk)
  then have step: "on_message w m = w\<lparr>currentTime := currentTime w + time m\<rparr>"
    by (intro on_message_silent) simp_all
  from Cons.prems have "totalDuration (foldl on_message (on_message w m) trk) =
      totalDuration (on_message w m)"
    by (intro Cons.IH) (simp_all add: step)
  then show ?case by (simp add: step)
qed

lemma foldl_on_track_silent:
  assumes "\<forall>trk\<in>set ts. \<forall>m\<in>set trk. \<not> (is_note_on m \<and> 0 < velocity m)"
  shows "totalDuration (foldl on_track w ts) = totalDuration w"
  using assms
proof (induction ts arbitrary: w)
  case Nil
  then show ?case by simp
next
  case (Cons trk ts)
  then have "totalDuration (on_track w trk) = totalDuration w"
    by (simp add: on_track_def foldl_on_message_silent)
  with Cons show ?case by simp
qed

text \<open>
  C5: when the total duration is 0 the key is pitch class 0, minor; this is so for
  every document in which no \<open>note_on\<close> has a positive velocity, the document without
  tracks among them. \<open>analyseKey\<close> is a total function: it has a result on every
  document, and the division by the total duration is behind the test.
\<close>

theorem analyseKey_degenerate:
  "(totalDuration (accumulate mid) = 0 \<longrightarrow> analyseKey mid = (0, ''minor'')) \<and>
   ((\<forall>trk\<in>set (tracks mid). \<forall>msg\<in>set trk. \<not> (is_note_on msg \<and> 0 < velocity msg)) \<longrightarrow>
      totalDuration (accumulate mid) = 0 \<and> analyseKey mid = (0, ''minor''))"
proof -
  have "totalDuration (accumulate mid) = 0"
    if "\<forall>trk\<in>set (tracks mid). \<forall>msg\<in>set trk. \<not> (is_note_on msg \<and> 0 < velocity msg)"
    using foldl_on_track_silent [OF that, of start]
    by (simp add: accumulate_def start_def)
  then show ?thesis
    by (auto simp add: analyseKey_def)
qed

theorem analyseKey_degenerate_witness:
  "totalDuration (accumulate silent) = 0 \<and> analyseKey silent = (0, ''minor'') \<and>
   analyseKey (silent\<lparr>tracks := []\<rparr>) = (0, ''minor'')"
proof -
  have quiet: "\<forall>trk\<in>set (tracks silent). \<forall>msg\<in>set trk. \<not> (is_note_on msg \<and> 0 < velocity msg)"
    by (simp add: silent_def)
  have "totalDuration (accumulate (silent\<lparr>tracks := []\<rparr>)) = 0"
    by (simp add: accumulate_def start_def)
  with quiet analyseKey_degenerate [of silent] analyseKey_degenerate [of "silent\<lparr>tracks := []\<rparr>"]
  show ?thesis by blast
qed

section \<open>The search for the best key\<close>

lemma foldl_product:
  "foldl (\<lambda>b i. foldl (g i) b ys) b xs = foldl (\<lambda>b (i, y). g i b y) b (List.product xs ys)"
  by (induction xs arbitrary: b) (simp_all add: foldl_map)

lemma pick_invariant:
  "fst b0 \<le> fst (foldl (pick sc lab) b0 cs) \<and>
   (\<forall>j<length cs. sc (cs ! j) \<le> fst (foldl (pick sc lab) b0 cs)) \<and>
   (foldl (pick sc lab) b0 cs = b0 \<or>
    (\<exists>j<length cs. foldl (pick sc lab) b0 cs = (sc (cs ! j), lab (cs ! j)) \<and>
                    (\<forall>j'<j. sc (cs ! j') < sc (cs ! j))))"
proof (induction cs rule: rev_induct)
  case Nil
  show ?case by simp
next
  case (snoc c cs)
  let ?r = "foldl (pick sc lab) b0 cs"
  show ?case
  proof (cases "sc c > fst ?r")
    case True
    then have r': "foldl (pick sc lab) b0 (cs @ [c]) = (sc c, lab c)"
      by (simp add: pick_def)
    have "\<forall>j<length (cs @ [c]). sc ((cs @ [c]) ! j) \<le> sc c"
      using snoc True by (auto simp add: nth_append less_Suc_eq)
    moreover have "\<forall>j'<length cs. sc ((cs @ [c]) ! j') < sc c"
      using snoc True by (auto simp add: nth_append)
    moreover have "fst b0 \<le> sc c"
      using snoc True by auto
    ultimately show ?thesis
      unfolding r' by (intro conjI disjI2 exI [of _ "length cs"]) simp_all
  next
    case False
    then have r': "foldl (pick sc lab) b0 (cs @ [c]) = ?r"
      by (simp add: pick_def)
    have "\<forall>j<length (cs @ [c]). sc ((cs @ [c]) ! j) \<le> fst ?r"
      using snoc False by (auto simp add: nth_append less_Suc_eq)
    moreover have "?r = b0 \<or>
      (\<exists>j<length (cs @ [c]). ?r = (sc ((cs @ [c]) ! j), lab ((cs @ [c]) ! j)) \<and>
                    (\<forall>j'<j. sc ((cs @ [c]) ! j') < sc ((cs @ [c]) ! j)))"
    proof (cases "?r = b0")
      case True
      then show ?thesis by simp
    next
      case False
      with snoc obtain j where j: "j < length cs" "?r = (sc (cs ! j), lab (cs ! j))"
        "\<forall>j'<j. sc (cs ! j') < sc (cs ! j)" by blast
      then have "j < length (cs @ [c]) \<and> ?r = (sc ((cs @ [c]) ! j), lab ((cs @ [c]) ! j)) \<and>
                    (\<forall>j'<j. sc ((cs @ [c]) ! j') < sc ((cs @ [c]) ! j))"
        by (auto simp add: nth_append)
      then show ?thesis by blast
    qed
    ultimately show ?thesis
      unfolding r' using snoc by blast
  qed
qed






















lemma search_pick:
  "search h = foldl (pick (cand_score h) cand_key) (- 1, (0, ''minor'')) candidates"
proof -
  have "(\<lambda>b (i, y). try_key h i b y) = pick (cand_score h) cand_key"
    by (auto simp add: fun_eq_iff try_key_def pick_def cand_score_def cand_key_def Let_def
             split: prod.splits)
  then show ?thesis
    by (simp add: search_def candidates_def foldl_product)
qed

lemma length_candidates: "length candidates = 24"
  by (simp add: candidates_def modes_def)

lemma nth_candidates:
  assumes "j < 24"
  shows "candidates ! j = (int (j div 2), mode_at j, profile_of (mode_at j))"
proof -
  have len: "length modes = 2"
    by (simp add: modes_def)
  from assms have "j div 2 < 12" by simp
  then have tonic: "[0..11] ! (j div 2) = int (j div 2)" by simp
  have mode: "modes ! (j mod 2) = (mode_at j, profile_of (mode_at j))"
    by (cases "even j")
       (simp_all add: modes_def mode_at_def profile_of_def even_iff_mod_2_eq_zero
                      odd_iff_mod_2_eq_one)
  from assms have "candidates ! j = ([0..11] ! (j div 2), modes ! (j mod 2))"
    unfolding candidates_def using product_nth [of j "[0..11]" modes]
    by (simp add: len)
  then show ?thesis
    by (simp only: tonic mode)
qed


lemma cand_key_nth:
  assumes "j < 24"
  shows "cand_key (candidates ! j) = (int (j div 2), mode_at j)"
  using assms by (simp add: nth_candidates cand_key_def)






text \<open>
  C8: the key depends on nothing but the tracks of the document, so two calls on the
  same document give the same key; its tonic is in 0..11 and its mode is major or
  minor.
\<close>

theorem analyseKey_deterministic_in_range:
  assumes "tracks mid' = tracks mid"
  shows "analyseKey mid' = analyseKey mid \<and>
         0 \<le> fst (analyseKey mid) \<and> fst (analyseKey mid) \<le> 11 \<and>
         (snd (analyseKey mid) = ''major'' \<or> snd (analyseKey mid) = ''minor'')"
proof -
  from assms have same: "analyseKey mid' = analyseKey mid"
    by (simp add: analyseKey_def accumulate_def)
  let ?h = "pitchClassHistogram (accumulate mid)"
  have "0 \<le> fst (snd (search ?h)) \<and> fst (snd (search ?h)) \<le> 11 \<and>
        (snd (snd (search ?h)) = ''major'' \<or> snd (snd (search ?h)) = ''minor'')"
  proof (cases "search ?h = (- 1, (0, ''minor''))")
    case True
    then show ?thesis by simp
  next
    case False
    with pick_invariant [of "(- 1, (0, ''minor''))" "cand_score ?h" cand_key candidates]
    obtain j where "j < 24" "search ?h = (cand_score ?h (candidates ! j), cand_key (candidates ! j))"
      unfolding search_pick length_candidates by blast
    then show ?thesis
      by (simp add: cand_key_nth mode_at_def)
  qed
  with same show ?thesis
    by (simp add: analyseKey_def Let_def)
qed

theorem analyseKey_deterministic_in_range_witness:
  "tracks (two_notes\<lparr>ticks_per_beat := 96\<rparr>) = tracks two_notes \<and>
   analyseKey (two_notes\<lparr>ticks_per_beat := 96\<rparr>) = analyseKey two_notes \<and>
   0 \<le> fst (analyseKey two_notes) \<and> fst (analyseKey two_notes) \<le> 11"
  using analyseKey_deterministic_in_range [of "two_notes\<lparr>ticks_per_beat := 96\<rparr>" two_notes]
  by simp

end
